theory Spec2Isabelle
  imports Complex_Main "HOL-Library.Sublist"
begin

section \<open>Data model\<close>

text \<open>
  The class \<open>ResultsDataframe\<close> holds one pandas DataFrame in \<open>self.df\<close>. A frame is
  modelled by its column labels, in order, and its rows, each row a list of cells in column
  order. Labels are strings; a Python \<open>str\<close> is modelled as a list of 8-bit characters, that
  is, labels built from code points below 256. A cell is a number, the missing value NaN that
  pandas uses for an empty reduction, or a string (the labels \<open>'P-max'\<close> and \<open>'P-avg'\<close> are
  written into cells). Numbers are exact rationals: every finite float is one, and the rounding
  of the floating-point mean is not modelled. Row labels are pandas' default ones,
  \<open>0 .. len(df) - 1\<close>, so that \<open>df.loc[len(df)] = row\<close> adds a row at the end.
\<close>

datatype cell = Num rat | NaN | Str string

datatype error = KeyError | ValueError | TypeError | IndexError

record table =
  columns :: "string list"
  rows :: "cell list list"

text \<open>
  A frame is rectangular and, in the tables considered here, its column labels are pairwise
  different (each row maps a column name to one value).
\<close>

definition wf_table :: "table \<Rightarrow> bool" where
  "wf_table t \<longleftrightarrow>
     distinct (columns t) \<and> list_all (\<lambda>r. length r = length (columns t)) (rows t)"

text \<open>
  A method call on the instance: it starts with \<open>self.df\<close> equal to the argument and ends
  either normally (\<open>None\<close>) or with an exception (\<open>Some e\<close>); the second component is
  \<open>self.df\<close> at that moment.
\<close>

type_synonym outcome = "error option \<times> table"

definition then_call :: "(table \<Rightarrow> outcome) \<Rightarrow> (table \<Rightarrow> outcome) \<Rightarrow> table \<Rightarrow> outcome" where
  "then_call f g df = (case f df of (None, df') \<Rightarrow> g df' | (Some e, df') \<Rightarrow> (Some e, df'))"

section \<open>Python strings and integers\<close>

text \<open>The characters below 256 that \<open>str.split()\<close> treats as whitespace.\<close>

definition is_space :: "char \<Rightarrow> bool" where
  "is_space c \<longleftrightarrow> (of_char c :: nat) \<in> {9, 10, 11, 12, 13, 28, 29, 30, 31, 32, 133, 160}"

text \<open>
  \<open>s.split()\<close>: the maximal runs of non-whitespace characters, in order. The first argument
  is the token being read.
\<close>

fun split_from :: "string \<Rightarrow> string \<Rightarrow> string list" where
  "split_from cur [] = (if cur = [] then [] else [cur])"
| "split_from cur (c # cs) =
     (if is_space c then (if cur = [] then split_from [] cs else cur # split_from [] cs)
      else split_from (cur @ [c]) cs)"

definition py_split :: "string \<Rightarrow> string list" where
  "py_split s = split_from [] s"

text \<open>
  \<open>int(tok, 2)\<close> on a token without whitespace (\<open>split\<close> returns no other): an optional
  sign, an optional prefix \<open>0b\<close> or \<open>0B\<close> which one underscore may follow, then binary
  digits with single underscores between them. \<open>None\<close> stands for the \<open>ValueError\<close>.
  \<open>scan_digits\<close> reads the digits; its first argument tells whether the previous character
  was an underscore.
\<close>

fun scan_digits :: "bool \<Rightarrow> int \<Rightarrow> string \<Rightarrow> int option" where
  "scan_digits prev_us acc [] = (if prev_us then None else Some acc)"
| "scan_digits prev_us acc (c # cs) =
     (if c = CHR ''_'' then (if prev_us then None else scan_digits True acc cs)
      else if c = CHR ''0'' then scan_digits False (2 * acc) cs
      else if c = CHR ''1'' then scan_digits False (2 * acc + 1) cs
      else None)"

fun strip_sign :: "string \<Rightarrow> bool \<times> string" where
  "strip_sign (c # cs) =
     (if c = CHR ''+'' then (False, cs) else if c = CHR ''-'' then (True, cs)
      else (False, c # cs))"
| "strip_sign [] = (False, [])"

fun strip_prefix2 :: "string \<Rightarrow> string" where
  "strip_prefix2 (c # d # cs) =
     (if c = CHR ''0'' \<and> (d = CHR ''b'' \<or> d = CHR ''B'')
      then (case cs of [] \<Rightarrow> [] | e # es \<Rightarrow> if e = CHR ''_'' then es else e # es)
      else c # d # cs)"
| "strip_prefix2 s = s"

definition py_int2 :: "string \<Rightarrow> int option" where
  "py_int2 tok =
     (let (neg, s) = strip_sign tok; ds = strip_prefix2 s
      in if ds = [] \<or> hd ds = CHR ''_'' then None
         else map_option (\<lambda>v. if neg then - v else v) (scan_digits False 0 ds))"

text \<open>\<open>str(i)\<close> for an integer: decimal digits, with a minus sign when negative.\<close>

definition digit_char :: "nat \<Rightarrow> char" where
  "digit_char d = char_of (48 + d)"

fun show_nat :: "nat \<Rightarrow> string" where
  "show_nat n = (if n < 10 then [digit_char n] else show_nat (n div 10) @ [digit_char (n mod 10)])"

definition show_int :: "int \<Rightarrow> string" where
  "show_int i = (if i < 0 then CHR ''-'' # show_nat (nat (- i)) else show_nat (nat i))"

text \<open>
  \<open>format(i, '0{w}b')\<close> for a non-negative integer: its binary digits (at least one),
  filled with zeros on the left up to width \<open>w\<close>.
\<close>

fun bin_digits :: "nat \<Rightarrow> string" where
  "bin_digits n = (if n < 2 then [digit_char n] else bin_digits (n div 2) @ [digit_char (n mod 2)])"

definition fmt_bin :: "nat \<Rightarrow> nat \<Rightarrow> string" where
  "fmt_bin w i = replicate (w - length (bin_digits i)) CHR ''0'' @ bin_digits i"

section \<open>convert_to_decimal\<close>

text \<open>
  The body of the loop for one label: the new label that the dictionary \<open>new_columns\<close>
  gets for \<open>col\<close>. Unpacking \<open>col.split()\<close> into two names raises unless there are exactly
  two tokens, and \<open>int\<close> raises on a token it cannot read; the \<open>except\<close> clause then keeps
  the label.
\<close>

definition convert_label :: "string \<Rightarrow> string" where
  "convert_label col =
     (if col = ''Time'' then col
      else case py_split col of
             [part1, part2] \<Rightarrow>
               (case (py_int2 part1, py_int2 part2) of
                  (Some a, Some b) \<Rightarrow> show_int a @ ''-'' @ show_int b
                | _ \<Rightarrow> col)
           | _ \<Rightarrow> col)"

text \<open>The loop fills the dictionary, one entry per label of \<open>self.df.columns\<close>.\<close>

fun new_columns :: "string list \<Rightarrow> (string \<rightharpoonup> string) \<Rightarrow> (string \<rightharpoonup> string)" where
  "new_columns [] m = m"
| "new_columns (col # cols) m = new_columns cols (m(col \<mapsto> convert_label col))"

text \<open>
  \<open>df.rename(columns=d, inplace=True)\<close>: every label that is a key of \<open>d\<close> is replaced by
  its value; rows are untouched.
\<close>

definition df_rename :: "(string \<rightharpoonup> string) \<Rightarrow> table \<Rightarrow> table" where
  "df_rename d df = df\<lparr>columns := map (\<lambda>c. case d c of Some c' \<Rightarrow> c' | None \<Rightarrow> c) (columns df)\<rparr>"

definition convert_to_decimal :: "table \<Rightarrow> outcome" where
  "convert_to_decimal df = (None, df_rename (new_columns (columns df) Map.empty) df)"

section \<open>filter_connected_columns\<close>

text \<open>
  The adjacency matrix \<open>A\<close> is given by its rows; \<open>len(A)\<close> is their number. An entry is
  an exact number, and only whether it differs from zero is used.

  \<open>math.ceil(math.log2(n))\<close> for \<open>n \<ge> 1\<close> is the least \<open>b\<close> with \<open>n \<le> 2 ^ b\<close>;
  the model computes it on integers (the floating-point logarithm gives that value for every
  node count a matrix in memory can have).
\<close>

type_synonym matrix = "rat list list"

fun ceil_log2 :: "nat \<Rightarrow> nat" where
  "ceil_log2 n = (if n \<le> 1 then 0 else Suc (ceil_log2 ((n + 1) div 2)))"

text \<open>The label \<open>f'{i:0{num_bits}b} {j:0{num_bits}b}'\<close>.\<close>

definition pair_label :: "nat \<Rightarrow> nat \<Rightarrow> nat \<Rightarrow> string" where
  "pair_label num_bits i j = fmt_bin num_bits i @ '' '' @ fmt_bin num_bits j"

text \<open>
  The two set comprehensions, as the lists of their elements in the order of the loops
  (membership is all that is asked of them).
\<close>

definition real_connections :: "matrix \<Rightarrow> nat \<Rightarrow> nat \<Rightarrow> string list" where
  "real_connections A num_nodes num_bits =
     concat (map (\<lambda>i. concat (map (\<lambda>j. if A ! i ! j \<noteq> 0 then [pair_label num_bits i j] else [])
                                  [0..<num_nodes]))
                 [0..<num_nodes])"

definition same_nodes :: "nat \<Rightarrow> nat \<Rightarrow> string list" where
  "same_nodes num_nodes num_bits =
     concat (map (\<lambda>i. concat (map (\<lambda>j. if i = j then [pair_label num_bits i j] else [])
                                  [0..<num_nodes]))
                 [0..<num_nodes])"

text \<open>
  \<open>df[keys]\<close> with a list of labels: for every key in turn, every column that bears this
  label (pandas selects by label, so a label held by two columns selects both).
\<close>

definition df_select :: "table \<Rightarrow> string list \<Rightarrow> table" where
  "df_select df keys =
     \<lparr>columns = concat (map (\<lambda>k. filter (\<lambda>c. c = k) (columns df)) keys),
      rows = map (\<lambda>r. concat (map (\<lambda>k. map snd (filter (\<lambda>p. fst p = k) (zip (columns df) r))) keys))
                 (rows df)\<rparr>"

text \<open>
  The body of the method once \<open>num_nodes\<close> and \<open>num_bits\<close> are known. Reading \<open>A[i, j]\<close>
  for all \<open>i, j < num_nodes\<close> raises \<open>IndexError\<close> when a row of \<open>A\<close> is shorter than
  \<open>num_nodes\<close>.
\<close>

definition filter_with_bits :: "nat \<Rightarrow> matrix \<Rightarrow> table \<Rightarrow> outcome" where
  "filter_with_bits num_bits A df =
     (let num_nodes = length A in
      if \<not> list_all (\<lambda>r. num_nodes \<le> length r) A then (Some IndexError, df)
      else
        let rc = real_connections A num_nodes num_bits;
            sn = same_nodes num_nodes num_bits;
            columns_to_keep = filter (\<lambda>col. col \<notin> set rc) (columns df);
            columns_to_keep = filter (\<lambda>col. col \<notin> set sn) columns_to_keep
        in (None, df_select df columns_to_keep))"

text \<open>\<open>math.log2(0)\<close> raises \<open>ValueError\<close>.\<close>

definition filter_connected_columns :: "matrix \<Rightarrow> table \<Rightarrow> outcome" where
  "filter_connected_columns A df =
     (let num_nodes = length A in
      if num_nodes = 0 then (Some ValueError, df)
      else filter_with_bits (ceil_log2 num_nodes) A df)"

section \<open>add_max_and_avg\<close>

text \<open>\<open>df.copy()\<close> is a frame with the same labels and values.\<close>

definition df_copy :: "table \<Rightarrow> table" where
  "df_copy df = df"

text \<open>
  \<open>df.drop(label, axis=1)\<close>: \<open>KeyError\<close> when no column bears the label, otherwise the
  frame without the columns that bear it.
\<close>

definition df_drop :: "string \<Rightarrow> table \<Rightarrow> error + table" where
  "df_drop label df =
     (if label \<notin> set (columns df) then Inl KeyError
      else Inr \<lparr>columns = filter (\<lambda>c. c \<noteq> label) (columns df),
                rows = map (\<lambda>r. map snd (filter (\<lambda>p. fst p \<noteq> label) (zip (columns df) r)))
                           (rows df)\<rparr>)"

text \<open>The values of the column at position \<open>i\<close>, top to bottom.\<close>

definition column_at :: "table \<Rightarrow> nat \<Rightarrow> cell list" where
  "column_at df i = map (\<lambda>r. r ! i) (rows df)"

definition numbers :: "cell list \<Rightarrow> rat list" where
  "numbers vs = concat (map (\<lambda>v. case v of Num x \<Rightarrow> [x] | _ \<Rightarrow> []) vs)"

definition is_str :: "cell \<Rightarrow> bool" where
  "is_str v = (case v of Str _ \<Rightarrow> True | _ \<Rightarrow> False)"

text \<open>
  \<open>Series.max()\<close> and \<open>Series.mean()\<close> skip NaN and give NaN when nothing is left.
\<close>

definition series_max :: "cell list \<Rightarrow> cell" where
  "series_max vs = (case numbers vs of [] \<Rightarrow> NaN | x # xs \<Rightarrow> Num (fold max xs x))"

definition series_mean :: "cell list \<Rightarrow> cell" where
  "series_mean vs =
     (case numbers vs of [] \<Rightarrow> NaN | x # xs \<Rightarrow> Num (sum_list (x # xs) / of_nat (length (x # xs))))"

text \<open>
  \<open>df.max()\<close> and \<open>df.mean()\<close>: one value per column, in column order. A reduction over
  columns of which one holds a string raises \<open>TypeError\<close> (pandas 2: \<open>max\<close> when the
  column mixes strings and numbers, \<open>mean\<close> in every case, and both are computed before the
  frame is touched).
\<close>

definition df_reduce :: "(cell list \<Rightarrow> cell) \<Rightarrow> table \<Rightarrow> error + cell list" where
  "df_reduce f df =
     (if list_ex (\<lambda>r. list_ex is_str r) (rows df) then Inl TypeError
      else Inr (map (\<lambda>i. f (column_at df i)) [0..<length (columns df)]))"

text \<open>
  \<open>df.loc[len(df)] = values\<close>: the values are taken by position; \<open>ValueError\<close> when their
  number is not the number of columns.
\<close>

definition df_append_row :: "table \<Rightarrow> cell list \<Rightarrow> error + table" where
  "df_append_row df vs =
     (if length vs \<noteq> length (columns df) then Inl ValueError
      else Inr (df\<lparr>rows := rows df @ [vs]\<rparr>))"

definition add_max_and_avg :: "table \<Rightarrow> outcome" where
  "add_max_and_avg df0 =
     (let df = df_copy df0 in
      (case df_drop ''Time'' df of Inl e \<Rightarrow> (Some e, df) | Inr d1 \<Rightarrow>
      (case df_reduce series_max d1 of Inl e \<Rightarrow> (Some e, df) | Inr p_max \<Rightarrow>
      (case df_drop ''Time'' df of Inl e \<Rightarrow> (Some e, df) | Inr d2 \<Rightarrow>
      (case df_reduce series_mean d2 of Inl e \<Rightarrow> (Some e, df) | Inr p_avg \<Rightarrow>
      (case df_append_row df (Str ''P-max'' # p_max) of Inl e \<Rightarrow> (Some e, df) | Inr df1 \<Rightarrow>
      (case df_append_row df1 (Str ''P-avg'' # p_avg) of Inl e \<Rightarrow> (Some e, df1)
       | Inr df2 \<Rightarrow> (None, df2))))))))"

section \<open>The two pipelines\<close>

definition postprocess_superposition :: "matrix \<Rightarrow> table \<Rightarrow> outcome" where
  "postprocess_superposition A =
     then_call (filter_connected_columns A) (then_call add_max_and_avg convert_to_decimal)"

definition postprocess_one_node :: "table \<Rightarrow> outcome" where
  "postprocess_one_node = add_max_and_avg"

section \<open>Notions of the specification\<close>

text \<open>
  The definitions of this section do not come from the code: they say, in the words of the
  specification, what the labels and rows are meant to be, and the theorems compare the code
  with them.
\<close>

text \<open>The integer that a string of binary digits encodes, most significant digit first.\<close>

definition bin_val :: "string \<Rightarrow> nat" where
  "bin_val s = foldl (\<lambda>a c. 2 * a + (if c = CHR ''1'' then 1 else 0)) 0 s"

text \<open>A binary string of fixed width \<open>b\<close>.\<close>

definition binary_string :: "nat \<Rightarrow> string \<Rightarrow> bool" where
  "binary_string b s \<longleftrightarrow> length s = b \<and> 0 < b \<and> list_all (\<lambda>c. c = CHR ''0'' \<or> c = CHR ''1'') s"




text \<open>
  A base-2 integer literal: one of the signs, one of the prefixes, then a body made of a
  binary digit followed by further digits, each of which one underscore may precede.
\<close>

fun body_ok :: "string \<Rightarrow> bool" where
  "body_ok [] = False"
| "body_ok [c] = (c = CHR ''0'' \<or> c = CHR ''1'')"
| "body_ok (c # d # cs) =
     ((c = CHR ''0'' \<or> c = CHR ''1'') \<and> (if d = CHR ''_'' then body_ok cs else body_ok (d # cs)))"

definition binary_literal :: "string \<Rightarrow> bool" where
  "binary_literal tok \<longleftrightarrow>
     list_ex (\<lambda>sg. list_ex (\<lambda>pf. take (length (sg @ pf)) tok = sg @ pf \<and>
                                   body_ok (drop (length (sg @ pf)) tok))
                           [[], ''0b'', ''0B'', ''0b_'', ''0B_''])
             [[], ''+'', ''-'']"

text \<open>
  A label encodes an excluded pair for the adjacency matrix \<open>A\<close> of \<open>n\<close> nodes when it is
  made of two binary strings of the width of the specification, \<open>ceil(log2(n))\<close> taken as at
  least 1, with one space between them, and the two integers \<open>i\<close> and \<open>j\<close> they encode are
  nodes with \<open>A[i][j] != 0\<close> or \<open>i = j\<close>.
\<close>

definition spec_width :: "nat \<Rightarrow> nat" where
  "spec_width n = max 1 (ceil_log2 n)"

definition encodes_excluded_pair :: "matrix \<Rightarrow> string \<Rightarrow> bool" where
  "encodes_excluded_pair A col \<longleftrightarrow>
     (\<exists>s1 s2. col = s1 @ '' '' @ s2
        \<and> binary_string (spec_width (length A)) s1 \<and> binary_string (spec_width (length A)) s2
        \<and> bin_val s1 < length A \<and> bin_val s2 < length A
        \<and> (A ! bin_val s1 ! bin_val s2 \<noteq> 0 \<or> bin_val s1 = bin_val s2))"

text \<open>
  The same seen from the code: the label is one that the formatter writes, at the width the
  code computes, for a real edge or a self-pair.
\<close>

definition excluded :: "matrix \<Rightarrow> string \<Rightarrow> bool" where
  "excluded A col \<longleftrightarrow>
     (\<exists>i < length A. \<exists>j < length A.
        col = pair_label (ceil_log2 (length A)) i j \<and> (A ! i ! j \<noteq> 0 \<or> i = j))"

definition square :: "matrix \<Rightarrow> bool" where
  "square A \<longleftrightarrow> list_all (\<lambda>r. length r = length A) A"





text \<open>
  The scenario of the specification: four nodes, the edges \<open>(0, 1)\<close> and \<open>(2, 3)\<close>, and a
  table of two rows.
\<close>

definition scenario_matrix :: matrix where
  "scenario_matrix = [[0, 1, 0, 0], [0, 0, 0, 0], [0, 0, 0, 1], [0, 0, 0, 0]]"

definition scenario_table :: table where
  "scenario_table =
     \<lparr>columns = [''Time'', ''00 01'', ''00 10'', ''01 10'', ''10 11''],
      rows = [[Num 0, Num (1/5), Num (1/2), Num (1/10), Num (3/10)],
              [Num 1, Num (4/5), Num (1/10), Num (2/5), Num (3/5)]]\<rparr>"

section \<open>Auxiliary notions\<close>



section \<open>Properties of the string functions\<close>

declare bin_digits.simps [simp del] show_nat.simps [simp del] ceil_log2.simps [simp del]

lemma split_from_no_space:
  "\<forall>c \<in> set s. \<not> is_space c \<Longrightarrow> split_from cur s = (if cur @ s = [] then [] else [cur @ s])"
  by (induction s arbitrary: cur) auto


lemma new_columns_lookup:
  "new_columns cols m c = (if c \<in> set cols then Some (convert_label c) else m c)"
  by (induction cols arbitrary: m) auto

lemma convert_columns: "columns (snd (convert_to_decimal df)) = map convert_label (columns df)"
  by (simp add: convert_to_decimal_def df_rename_def new_columns_lookup)







lemma of_char_digit_char: "d < 10 \<Longrightarrow> (of_char (digit_char d) :: nat) = 48 + d"
  by (simp add: digit_char_def)

lemma digit_char_no_space: "d < 10 \<Longrightarrow> \<not> is_space (digit_char d)"
  by (simp add: is_space_def of_char_digit_char)


lemma digit_char_zero: "d < 10 \<Longrightarrow> digit_char d = CHR ''0'' \<longleftrightarrow> d = 0"
proof
  assume d: "d < 10" and "digit_char d = CHR ''0''"
  then have "(of_char (digit_char d) :: nat) = of_char CHR ''0''" by simp
  then show "d = 0" using d by (simp add: of_char_digit_char)
next
  assume "d = 0"
  then show "digit_char d = CHR ''0''" by (simp add: digit_char_def) code_simp
qed

lemma show_nat_nonempty: "show_nat n \<noteq> []"
  by (subst show_nat.simps) simp

lemma show_nat_no_space: "\<forall>c \<in> set (show_nat n). \<not> is_space c"
proof (induction n rule: show_nat.induct)
  case (1 n)
  show ?case
  proof (cases "n < 10")
    case True
    then show ?thesis by (subst show_nat.simps) (simp add: digit_char_no_space)
  next
    case False
    have "n mod 10 < 10" by simp
    then show ?thesis using False 1 digit_char_no_space[of "n mod 10"]
      by (subst show_nat.simps) auto
  qed
qed

lemma show_int_no_space: "\<forall>c \<in> set (show_int i). \<not> is_space c"
  using show_nat_no_space by (auto simp: show_int_def is_space_def)

lemma show_int_nonempty: "show_int i \<noteq> []"
  by (simp add: show_int_def show_nat_nonempty)

lemma py_split_single:
  "s \<noteq> [] \<Longrightarrow> \<forall>c \<in> set s. \<not> is_space c \<Longrightarrow> py_split s = [s]"
  using split_from_no_space[of s "[]"] by (simp add: py_split_def)

lemma convert_label_result_fixed:
  "convert_label (show_int a @ ''-'' @ show_int b) = show_int a @ ''-'' @ show_int b"
proof -
  have "\<not> is_space CHR ''-''" by (simp add: is_space_def)
  then have "\<forall>c \<in> set (show_int a @ ''-'' @ show_int b). \<not> is_space c"
    using show_int_no_space[of a] show_int_no_space[of b] by auto
  moreover have "show_int a @ ''-'' @ show_int b \<noteq> []" by simp
  ultimately have "py_split (show_int a @ ''-'' @ show_int b) = [show_int a @ ''-'' @ show_int b]"
    by (rule py_split_single[rotated])
  then show ?thesis by (simp add: convert_label_def)
qed

lemma convert_label_idem: "convert_label (convert_label col) = convert_label col"
proof (cases "convert_label col = col")
  case True then show ?thesis by simp
next
  case False
  then obtain a b where "convert_label col = show_int a @ ''-'' @ show_int b"
    by (auto simp: convert_label_def split: if_splits list.splits option.splits)
  then show ?thesis using convert_label_result_fixed[of a b] by simp
qed

lemma scan_digits_body:
  "(scan_digits True acc s \<noteq> None \<longleftrightarrow> body_ok s) \<and>
   (scan_digits False acc s \<noteq> None \<and> s \<noteq> [] \<and> hd s \<noteq> CHR ''_'' \<longleftrightarrow> body_ok s)"
proof (induction s arbitrary: acc rule: body_ok.induct)
  case 1 then show ?case by simp
next
  case (2 c) then show ?case by simp
next
  case (3 c d cs)
  show ?case
  proof (cases "d = CHR ''_''")
    case True
    then show ?thesis using 3(1)[OF True] by auto
  next
    case False
    then show ?thesis using 3(2)[OF False] by auto
  qed
qed

lemma strip_sign_decomp:
  "\<exists>sg \<in> set [[], ''+'', ''-'']. tok = sg @ snd (strip_sign tok)"
  by (cases tok rule: strip_sign.cases) auto

lemma strip_prefix2_decomp:
  "\<exists>pf \<in> set [[], ''0b'', ''0B'', ''0b_'', ''0B_'']. s = pf @ strip_prefix2 s"
  by (cases s rule: strip_prefix2.cases) (auto split: list.splits)

lemma py_int2_literal:
  assumes "py_int2 tok = Some v"
  shows "binary_literal tok"
proof -
  define s where "s = snd (strip_sign tok)"
  define ds where "ds = strip_prefix2 s"
  have "scan_digits False 0 ds \<noteq> None \<and> ds \<noteq> [] \<and> hd ds \<noteq> CHR ''_''"
    using assms unfolding py_int2_def s_def ds_def
    by (auto simp: Let_def split: prod.splits if_splits)
  then have body: "body_ok ds" using scan_digits_body[of 0 ds] by blast
  obtain sg where sg: "sg \<in> set [[], ''+'', ''-'']" "tok = sg @ s"
    using strip_sign_decomp[of tok] unfolding s_def by blast
  obtain pf where pf: "pf \<in> set [[], ''0b'', ''0B'', ''0b_'', ''0B_'']" "s = pf @ ds"
    using strip_prefix2_decomp[of s] unfolding ds_def by blast
  have "take (length (sg @ pf)) tok = sg @ pf \<and> body_ok (drop (length (sg @ pf)) tok)"
    using sg(2) pf(2) body by simp
  then show ?thesis
    unfolding binary_literal_def list_ex_iff using sg(1) pf(1) by blast
qed




section \<open>Properties of the column filter\<close>

lemma digit_char_bit: "d < 2 \<Longrightarrow> digit_char d = CHR ''0'' \<or> digit_char d = CHR ''1''"
proof -
  assume "d < 2"
  then have "d = 0 \<or> d = 1" by arith
  moreover have "char_of (48::nat) = CHR ''0''" "char_of (49::nat) = CHR ''1''" by code_simp+
  ultimately show ?thesis by (auto simp: digit_char_def)
qed

lemma bin_digits_bits: "set (bin_digits n) \<subseteq> {CHR ''0'', CHR ''1''}"
proof (induction n rule: bin_digits.induct)
  case (1 n)
  show ?case
  proof (cases "n < 2")
    case True
    then show ?thesis using digit_char_bit[of n] by (subst bin_digits.simps) auto
  next
    case False
    have "n mod 2 < 2" by simp
    then show ?thesis using False 1 digit_char_bit[of "n mod 2"]
      by (subst bin_digits.simps) auto
  qed
qed

lemma fmt_bin_bits: "set (fmt_bin w i) \<subseteq> {CHR ''0'', CHR ''1''}"
  using bin_digits_bits[of i] by (auto simp: fmt_bin_def)

lemma pair_label_chars: "set (pair_label b i j) \<subseteq> {CHR ''0'', CHR ''1'', CHR '' ''}"
  using fmt_bin_bits[of b i] fmt_bin_bits[of b j] by (auto simp: pair_label_def)

lemma pair_label_not_Time: "pair_label b i j \<noteq> ''Time''"
proof
  assume "pair_label b i j = ''Time''"
  then have "CHR ''T'' \<in> set (pair_label b i j)" by simp
  then show False using pair_label_chars[of b i j] by auto
qed

lemma in_concat_map: "x \<in> set (concat (map f xs)) \<longleftrightarrow> (\<exists>y \<in> set xs. x \<in> set (f y))"
  by auto

lemma in_real_connections:
  "x \<in> set (real_connections A n b) \<longleftrightarrow>
   (\<exists>i<n. \<exists>j<n. A ! i ! j \<noteq> 0 \<and> x = pair_label b i j)" (is "?L \<longleftrightarrow> ?R")
proof -
  have mid: "?L \<longleftrightarrow> (\<exists>i \<in> set [0..<n]. \<exists>j \<in> set [0..<n].
               x \<in> set (if A ! i ! j \<noteq> 0 then [pair_label b i j] else []))"
    by (simp only: real_connections_def in_concat_map)
  show ?thesis
  proof
    assume ?L
    then obtain i j where "i \<in> set [0..<n]" "j \<in> set [0..<n]"
        "x \<in> set (if A ! i ! j \<noteq> 0 then [pair_label b i j] else [])"
      unfolding mid by blast
    then show ?R by (auto split: if_splits)
  next
    assume ?R
    then obtain i j where "i < n" "j < n" "A ! i ! j \<noteq> 0" "x = pair_label b i j" by blast
    then have "i \<in> set [0..<n]" "j \<in> set [0..<n]"
        "x \<in> set (if A ! i ! j \<noteq> 0 then [pair_label b i j] else [])" by auto
    then show ?L unfolding mid by blast
  qed
qed

lemma in_same_nodes:
  "x \<in> set (same_nodes n b) \<longleftrightarrow> (\<exists>i<n. x = pair_label b i i)" (is "?L \<longleftrightarrow> ?R")
proof -
  have mid: "?L \<longleftrightarrow> (\<exists>i \<in> set [0..<n]. \<exists>j \<in> set [0..<n].
               x \<in> set (if i = j then [pair_label b i j] else []))"
    by (simp only: same_nodes_def in_concat_map)
  show ?thesis
  proof
    assume ?L
    then obtain i j where "i \<in> set [0..<n]" "j \<in> set [0..<n]"
        "x \<in> set (if i = j then [pair_label b i j] else [])"
      unfolding mid by blast
    then show ?R by (auto split: if_splits)
  next
    assume ?R
    then obtain i where "i < n" "x = pair_label b i i" by blast
    then have "i \<in> set [0..<n]" "x \<in> set (if i = i then [pair_label b i i] else [])" by auto
    then show ?L unfolding mid by blast
  qed
qed

lemma keep_iff_not_excluded:
  "(col \<notin> set (real_connections A (length A) (ceil_log2 (length A))) \<and>
    col \<notin> set (same_nodes (length A) (ceil_log2 (length A)))) \<longleftrightarrow> \<not> excluded A col"
  unfolding in_real_connections in_same_nodes excluded_def by blast

lemma select_pairs_skip:
  "fst p \<notin> set ks \<Longrightarrow>
   concat (map (\<lambda>k. filter (\<lambda>q. fst q = k) (p # ps)) ks)
   = concat (map (\<lambda>k. filter (\<lambda>q. fst q = k) ps) ks)"
  by (induction ks) auto

lemma select_pairs:
  "distinct (map fst ps) \<Longrightarrow>
   concat (map (\<lambda>k. filter (\<lambda>p. fst p = k) ps) (filter P (map fst ps))) = filter (\<lambda>p. P (fst p)) ps"
proof (induction ps)
  case Nil then show ?case by simp
next
  case (Cons p ps)
  from Cons.prems have d: "distinct (map fst ps)" and "fst p \<notin> fst ` set ps" by simp_all
  then have notin: "\<forall>q \<in> set ps. fst q \<noteq> fst p" by (metis imageI)
  have own: "filter (\<lambda>q. fst q = fst p) ps = []"
    using notin by (simp add: filter_empty_conv)
  have "fst p \<notin> set (filter P (map fst ps))" using notin by auto
  from select_pairs_skip[OF this, of ps]
  have skip: "concat (map (\<lambda>k. filter (\<lambda>q. fst q = k) (p # ps)) (filter P (map fst ps)))
            = filter (\<lambda>p. P (fst p)) ps"
    using Cons.IH[OF d] by simp
  show ?case
  proof (cases "P (fst p)")
    case True
    have "concat (map (\<lambda>k. filter (\<lambda>q. fst q = k) (p # ps)) (filter P (map fst (p # ps))))
        = filter (\<lambda>q. fst q = fst p) (p # ps)
          @ concat (map (\<lambda>k. filter (\<lambda>q. fst q = k) (p # ps)) (filter P (map fst ps)))"
      using True by simp
    also have "\<dots> = p # filter (\<lambda>p. P (fst p)) ps" unfolding skip using own by simp
    finally show ?thesis using True by simp
  next
    case False
    have "concat (map (\<lambda>k. filter (\<lambda>q. fst q = k) (p # ps)) (filter P (map fst (p # ps))))
        = concat (map (\<lambda>k. filter (\<lambda>q. fst q = k) (p # ps)) (filter P (map fst ps)))"
      using False by simp
    also have "\<dots> = filter (\<lambda>p. P (fst p)) ps" by (rule skip)
    finally show ?thesis using False by simp
  qed
qed

lemma select_labels_skip:
  "c \<notin> set ks \<Longrightarrow>
   concat (map (\<lambda>k. filter (\<lambda>x. x = k) (c # cols)) ks)
   = concat (map (\<lambda>k. filter (\<lambda>x. x = k) cols) ks)"
  by (induction ks) auto

lemma select_labels:
  "distinct cols \<Longrightarrow> concat (map (\<lambda>k. filter (\<lambda>c. c = k) cols) (filter P cols)) = filter P cols"
proof (induction cols)
  case Nil then show ?case by simp
next
  case (Cons c cols)
  from Cons.prems have notin: "c \<notin> set cols" and d: "distinct cols" by auto
  have own: "filter (\<lambda>x. x = c) cols = []" using notin by (auto simp: filter_empty_conv)
  have "c \<notin> set (filter P cols)" using notin by simp
  from select_labels_skip[OF this, of cols]
  have skip: "concat (map (\<lambda>k. filter (\<lambda>x. x = k) (c # cols)) (filter P cols)) = filter P cols"
    using Cons.IH[OF d] by simp
  show ?case
  proof (cases "P c")
    case True
    have "concat (map (\<lambda>k. filter (\<lambda>x. x = k) (c # cols)) (filter P (c # cols)))
        = filter (\<lambda>x. x = c) (c # cols)
          @ concat (map (\<lambda>k. filter (\<lambda>x. x = k) (c # cols)) (filter P cols))"
      using True by simp
    also have "\<dots> = c # filter P cols" unfolding skip using own by simp
    finally show ?thesis using True by simp
  next
    case False
    have "concat (map (\<lambda>k. filter (\<lambda>x. x = k) (c # cols)) (filter P (c # cols)))
        = concat (map (\<lambda>k. filter (\<lambda>x. x = k) (c # cols)) (filter P cols))"
      using False by simp
    also have "\<dots> = filter P cols" by (rule skip)
    finally show ?thesis using False by simp
  qed
qed

lemma select_row:
  assumes "distinct cols" "length r = length cols"
  shows "concat (map (\<lambda>k. map snd (filter (\<lambda>p. fst p = k) (zip cols r))) (filter P cols))
       = map snd (filter (\<lambda>p. P (fst p)) (zip cols r))"
proof -
  have m: "map fst (zip cols r) = cols" using assms(2) by simp
  have "concat (map (\<lambda>k. map snd (filter (\<lambda>p. fst p = k) (zip cols r))) (filter P cols))
      = map snd (concat (map (\<lambda>k. filter (\<lambda>p. fst p = k) (zip cols r)) (filter P cols)))"
    by (simp add: map_concat comp_def)
  also have "\<dots> = map snd (filter (\<lambda>p. P (fst p)) (zip cols r))"
    using select_pairs[of "zip cols r" P] assms(1) m by simp
  finally show ?thesis .
qed

lemma df_select_filter:
  assumes "wf_table df"
  shows "df_select df (filter P (columns df))
       = \<lparr>columns = filter P (columns df),
          rows = map (\<lambda>r. map snd (filter (\<lambda>p. P (fst p)) (zip (columns df) r))) (rows df)\<rparr>"
proof -
  have d: "distinct (columns df)" and len: "\<forall>r \<in> set (rows df). length r = length (columns df)"
    using assms by (auto simp: wf_table_def list_all_iff)
  have "map (\<lambda>r. concat (map (\<lambda>k. map snd (filter (\<lambda>p. fst p = k) (zip (columns df) r)))
                            (filter P (columns df)))) (rows df)
      = map (\<lambda>r. map snd (filter (\<lambda>p. P (fst p)) (zip (columns df) r))) (rows df)"
    using len by (intro map_cong) (auto simp: select_row[OF d])
  then show ?thesis by (simp add: df_select_def select_labels[OF d])
qed

lemma filter_connected_columns_eq:
  assumes "A \<noteq> []" "square A" "wf_table df"
  shows "filter_connected_columns A df =
     (None, \<lparr>columns = filter (\<lambda>c. \<not> excluded A c) (columns df),
            rows = map (\<lambda>r. map snd (filter (\<lambda>p. \<not> excluded A (fst p)) (zip (columns df) r)))
                       (rows df)\<rparr>)"
proof -
  have sq: "list_all (\<lambda>r. length A \<le> length r) A"
    using assms(2) by (auto simp: square_def list_all_iff)
  have keep: "filter (\<lambda>col. col \<notin> set (same_nodes (length A) (ceil_log2 (length A))))
                (filter (\<lambda>col. col \<notin> set (real_connections A (length A) (ceil_log2 (length A))))
                   (columns df))
            = filter (\<lambda>c. \<not> excluded A c) (columns df)"
    unfolding filter_filter by (rule filter_cong) (use keep_iff_not_excluded[of _ A] in auto)
  have "filter_connected_columns A df = (None, df_select df (filter (\<lambda>c. \<not> excluded A c) (columns df)))"
    using assms(1) sq
    by (simp only: filter_connected_columns_def filter_with_bits_def Let_def keep
        length_0_conv if_False not_not if_True not_True_eq_False)
  then show ?thesis by (simp only: df_select_filter[OF assms(3)])
qed

lemma ceil_log2_eq: "1 \<le> n \<Longrightarrow> int (ceil_log2 n) = \<lceil>log 2 (real n)\<rceil>"
proof (induction n rule: ceil_log2.induct)
  case (1 n)
  show ?case
  proof (cases "n \<le> 1")
    case True
    with 1 have "n = 1" by simp
    then show ?thesis by (simp add: ceil_log2.simps)
  next
    case False
    then have n2: "2 \<le> n" by simp
    have eq: "(n + 1) div 2 = (n - 1) div 2 + 1" using n2 by arith
    have "1 \<le> (n + 1) div 2" using n2 by arith
    from 1(1)[OF False this] have IH: "int (ceil_log2 ((n + 1) div 2)) = \<lceil>log 2 (real ((n + 1) div 2))\<rceil>" .
    have "int (ceil_log2 n) = int (ceil_log2 ((n + 1) div 2)) + 1"
      using False by (subst ceil_log2.simps) simp
    also have "\<dots> = \<lceil>log 2 (real ((n - 1) div 2 + 1))\<rceil> + 1" using IH eq by simp
    also have "\<dots> = \<lceil>log 2 (real n)\<rceil>" using ceiling_log2_div2[OF n2] by simp
    finally show ?thesis .
  qed
qed


lemma time_not_excluded: "\<not> excluded A ''Time''"
  unfolding excluded_def by (metis pair_label_not_Time)

section \<open>Properties of the summary rows\<close>

lemma add_no_time:
  "''Time'' \<notin> set (columns df) \<Longrightarrow> add_max_and_avg df = (Some KeyError, df)"
  by (simp add: add_max_and_avg_def df_copy_def df_drop_def)
















section \<open>Labels written by the formatter\<close>

lemma bin_val_snoc: "bin_val (s @ [c]) = 2 * bin_val s + (if c = CHR ''1'' then 1 else 0)"
  by (simp add: bin_val_def)

lemma digit_char_one: "d < 2 \<Longrightarrow> digit_char d = CHR ''1'' \<longleftrightarrow> d = 1"
proof
  assume d: "d < 2" and "digit_char d = CHR ''1''"
  then have "(of_char (digit_char d) :: nat) = of_char CHR ''1''" by simp
  then show "d = 1" using d by (simp add: of_char_digit_char)
next
  assume "d = 1"
  then show "digit_char d = CHR ''1''" by (simp add: digit_char_def) code_simp
qed

lemma bin_val_bin_digits: "bin_val (bin_digits n) = n"
proof (induction n rule: bin_digits.induct)
  case (1 n)
  show ?case
  proof (cases "n < 2")
    case True
    then show ?thesis
      by (subst bin_digits.simps) (simp add: bin_val_def digit_char_one)
  next
    case False
    have m: "n mod 2 < 2" by simp
    have "bin_val (bin_digits n) = 2 * (n div 2) + (if digit_char (n mod 2) = CHR ''1'' then 1 else 0)"
      using False 1 by (subst bin_digits.simps) (simp add: bin_val_snoc)
    also have "\<dots> = 2 * (n div 2) + n mod 2"
      using digit_char_one[OF m] by (cases "n mod 2 = 1") auto
    finally show ?thesis by simp
  qed
qed

lemma length_bin_digits: "n < 2 ^ b \<Longrightarrow> 0 < b \<Longrightarrow> length (bin_digits n) \<le> b"
proof (induction n arbitrary: b rule: bin_digits.induct)
  case (1 n)
  show ?case
  proof (cases "n < 2")
    case True
    then show ?thesis using 1(3) by (subst bin_digits.simps) simp
  next
    case False
    obtain b' where b: "b = Suc b'" using 1(3) by (cases b) auto
    have "b' \<noteq> 0" using False 1(2) b by (cases b') auto
    moreover have "n div 2 < 2 ^ b'" using 1(2) b by auto
    ultimately have "length (bin_digits (n div 2)) \<le> b'" using 1(1)[OF False, of b'] by simp
    then show ?thesis using False b by (subst bin_digits.simps) simp
  qed
qed

lemma bin_val_zeros: "bin_val (replicate k CHR ''0'' @ s) = bin_val s"
proof -
  have "foldl (\<lambda>a c. 2 * a + (if c = CHR ''1'' then 1 else 0)) 0 (replicate k CHR ''0'') = (0::nat)"
    by (induction k) simp_all
  then show ?thesis by (simp add: bin_val_def)
qed

lemma fmt_bin_binary_string:
  assumes "a < 2 ^ b" "0 < b"
  shows "binary_string b (fmt_bin b a) \<and> bin_val (fmt_bin b a) = a"
proof -
  have l: "length (bin_digits a) \<le> b" by (rule length_bin_digits[OF assms])
  have "list_all (\<lambda>c. c = CHR ''0'' \<or> c = CHR ''1'') (fmt_bin b a)"
    using fmt_bin_bits[of b a] by (auto simp: list_all_iff)
  moreover have "length (fmt_bin b a) = b" using l by (simp add: fmt_bin_def)
  moreover have "bin_val (fmt_bin b a) = a"
    by (simp add: fmt_bin_def bin_val_zeros bin_val_bin_digits)
  ultimately show ?thesis using assms(2) by (simp add: binary_string_def)
qed

lemma bin_val_bound:
  "list_all (\<lambda>c. c = CHR ''0'' \<or> c = CHR ''1'') s \<Longrightarrow> bin_val s < 2 ^ length s"
proof (induction s rule: rev_induct)
  case Nil then show ?case by (simp add: bin_val_def)
next
  case (snoc c s)
  then have "bin_val s < 2 ^ length s" by simp
  then show ?case by (simp add: bin_val_snoc)
qed


lemma ceil_log2_bound: "n \<le> 2 ^ ceil_log2 n"
proof (induction n rule: ceil_log2.induct)
  case (1 n)
  show ?case
  proof (cases "n \<le> 1")
    case True then show ?thesis by (simp add: ceil_log2.simps)
  next
    case False
    then have "(n + 1) div 2 \<le> 2 ^ ceil_log2 ((n + 1) div 2)" using 1 by simp
    then have "n \<le> 2 * 2 ^ ceil_log2 ((n + 1) div 2)" by arith
    then show ?thesis using False by (subst ceil_log2.simps) simp
  qed
qed

lemma bin_digits_nonempty: "bin_digits i \<noteq> []"
  by (subst bin_digits.simps) simp

lemma fmt_bin_width: "fmt_bin w i = fmt_bin (max 1 w) i"
proof -
  have "1 \<le> length (bin_digits i)" using bin_digits_nonempty[of i] by (cases "bin_digits i") auto
  then have "w - length (bin_digits i) = max 1 w - length (bin_digits i)" by arith
  then show ?thesis by (simp add: fmt_bin_def)
qed

lemma pair_label_width: "pair_label w i j = pair_label (max 1 w) i j"
  using fmt_bin_width[of w i] fmt_bin_width[of w j] by (simp add: pair_label_def)

lemma bin_val_inj:
  "length s = length t \<Longrightarrow> set s \<subseteq> {CHR ''0'', CHR ''1''} \<Longrightarrow> set t \<subseteq> {CHR ''0'', CHR ''1''}
   \<Longrightarrow> bin_val s = bin_val t \<Longrightarrow> s = t"
proof (induction s arbitrary: t rule: rev_induct)
  case Nil then show ?case by simp
next
  case (snoc c s)
  then obtain d t' where t: "t = t' @ [d]" by (cases t rule: rev_cases) auto
  have cd: "(c = CHR ''0'' \<or> c = CHR ''1'') \<and> (d = CHR ''0'' \<or> d = CHR ''1'')"
    using snoc.prems t by auto
  have eq: "2 * bin_val s + (if c = CHR ''1'' then 1 else 0)
          = 2 * bin_val t' + (if d = CHR ''1'' then 1 else 0)"
    using snoc.prems(4) t by (simp add: bin_val_snoc)
  have "c = d" using eq cd by (auto split: if_splits) presburger+
  moreover have "bin_val s = bin_val t'" using eq \<open>c = d\<close> by simp
  then have "s = t'" using snoc.IH[of t'] snoc.prems t by auto
  ultimately show ?case using t by simp
qed

lemma fmt_bin_bin_val:
  assumes "binary_string w s"
  shows "fmt_bin w (bin_val s) = s"
proof -
  have w: "0 < w" and l: "length s = w" and bits: "set s \<subseteq> {CHR ''0'', CHR ''1''}"
    using assms by (auto simp: binary_string_def list_all_iff)
  have "bin_val s < 2 ^ w" using bin_val_bound[of s] assms by (simp add: binary_string_def)
  from fmt_bin_binary_string[OF this w]
  have "length (fmt_bin w (bin_val s)) = w" "bin_val (fmt_bin w (bin_val s)) = bin_val s"
    by (simp_all add: binary_string_def)
  then show ?thesis using bin_val_inj[of "fmt_bin w (bin_val s)" s] fmt_bin_bits[of w "bin_val s"] l bits
    by simp
qed

lemma excluded_iff_encodes:
  assumes "A \<noteq> []"
  shows "excluded A col \<longleftrightarrow> encodes_excluded_pair A col"
proof
  define w where "w = spec_width (length A)"
  have w: "0 < w" by (simp add: w_def spec_width_def)
  have lab: "pair_label (ceil_log2 (length A)) i j = fmt_bin w i @ '' '' @ fmt_bin w j" for i j
    using pair_label_width[of "ceil_log2 (length A)" i j]
    by (simp add: w_def spec_width_def pair_label_def)
  have small: "i < 2 ^ w" if "i < length A" for i
  proof -
    have "length A \<le> 2 ^ ceil_log2 (length A)" by (rule ceil_log2_bound)
    also have "\<dots> \<le> (2::nat) ^ w" by (simp add: w_def spec_width_def)
    finally show ?thesis using that by simp
  qed
  {
    assume "excluded A col"
    then obtain i j where ij: "i < length A" "j < length A"
        "col = fmt_bin w i @ '' '' @ fmt_bin w j" "A ! i ! j \<noteq> 0 \<or> i = j"
      unfolding excluded_def lab by blast
    have "binary_string w (fmt_bin w i) \<and> bin_val (fmt_bin w i) = i"
         "binary_string w (fmt_bin w j) \<and> bin_val (fmt_bin w j) = j"
      using fmt_bin_binary_string[OF small w] ij(1,2) by blast+
    then show "encodes_excluded_pair A col"
      unfolding encodes_excluded_pair_def w_def[symmetric] using ij by metis
  }
  {
    assume "encodes_excluded_pair A col"
    then obtain s1 s2 where s: "col = s1 @ '' '' @ s2" "binary_string w s1" "binary_string w s2"
        "bin_val s1 < length A" "bin_val s2 < length A"
        "A ! bin_val s1 ! bin_val s2 \<noteq> 0 \<or> bin_val s1 = bin_val s2"
      unfolding encodes_excluded_pair_def w_def[symmetric] by blast
    have "col = pair_label (ceil_log2 (length A)) (bin_val s1) (bin_val s2)"
      unfolding lab using s(1) fmt_bin_bin_val[OF s(2)] fmt_bin_bin_val[OF s(3)] by simp
    then show "excluded A col" unfolding excluded_def using s(4,5,6) by blast
  }
qed

lemma strip_sign_literal:
  assumes "rest \<noteq> []" "hd rest \<noteq> CHR ''+''" "hd rest \<noteq> CHR ''-''"
    and "sg \<in> set [[], ''+'', ''-'']"
  shows "strip_sign (sg @ rest) = (sg = ''-'', rest)"
proof -
  obtain c cs where "rest = c # cs" using assms(1) by (cases rest) auto
  then show ?thesis using assms by auto
qed

lemma body_ok_hd: "body_ok s \<Longrightarrow> s \<noteq> [] \<and> (hd s = CHR ''0'' \<or> hd s = CHR ''1'')"
  by (cases s rule: body_ok.cases) auto

lemma strip_prefix2_literal:
  assumes "body_ok body" "pf \<in> set [[], ''0b'', ''0B'', ''0b_'', ''0B_'']"
  shows "strip_prefix2 (pf @ body) = body"
proof -
  obtain c cs where b: "body = c # cs" "c = CHR ''0'' \<or> c = CHR ''1''"
    using body_ok_hd[OF assms(1)] by (cases body) auto
  have plain: "strip_prefix2 body = body"
  proof (cases cs)
    case Nil then show ?thesis using b by simp
  next
    case (Cons d ds)
    then have "d = CHR ''_'' \<or> d = CHR ''0'' \<or> d = CHR ''1''"
      using assms(1) b body_ok_hd[of "d # ds"] by (auto split: if_splits)
    then show ?thesis using b Cons by auto
  qed
  show ?thesis using assms(2) plain b by auto
qed

lemma literal_is_read:
  assumes "binary_literal tok"
  shows "py_int2 tok \<noteq> None"
proof -
  obtain sg pf where sg: "sg \<in> set [[], ''+'', ''-'']"
      and pf: "pf \<in> set [[], ''0b'', ''0B'', ''0b_'', ''0B_'']"
      and tk: "take (length (sg @ pf)) tok = sg @ pf"
      and body: "body_ok (drop (length (sg @ pf)) tok)"
    using assms unfolding binary_literal_def list_ex_iff by blast
  define body where "body = drop (length (sg @ pf)) tok"
  have tok: "tok = sg @ (pf @ body)"
    using tk append_take_drop_id[of "length (sg @ pf)" tok] by (simp add: body_def)
  have bk: "body_ok body" using body by (simp add: body_def)
  have hb: "body \<noteq> []" "hd body = CHR ''0'' \<or> hd body = CHR ''1''"
    using body_ok_hd[OF bk] by simp_all
  have "pf @ body \<noteq> []" "hd (pf @ body) = CHR ''0'' \<or> hd (pf @ body) = CHR ''1''"
    using hb pf by auto
  then have ss: "strip_sign tok = (sg = ''-'', pf @ body)"
    unfolding tok using strip_sign_literal[OF _ _ _ sg, of "pf @ body"] by auto
  have sp: "strip_prefix2 (pf @ body) = body" by (rule strip_prefix2_literal[OF bk pf])
  have "scan_digits False 0 body \<noteq> None" using scan_digits_body[of 0 body] bk by blast
  then show ?thesis using hb by (auto simp: py_int2_def ss sp)
qed

lemma py_int2_reads_literals: "py_int2 tok \<noteq> None \<longleftrightarrow> binary_literal tok"
  using py_int2_literal[of tok] literal_is_read[of tok] by auto


section \<open>The claims\<close>

subsection \<open>Filtering\<close>

text \<open>
  C1. For every square adjacency matrix \<open>A\<close> with at least one node and every table,
  \<open>filter_connected_columns\<close> returns normally and removes exactly the columns whose label
  encodes, in two binary strings of width \<open>ceil(log2(n))\<close> (taken as at least 1), a pair
  \<open>(i, j)\<close> of nodes with
  \<open>A[i][j] != 0\<close> or \<open>i = j\<close>; each column that is kept keeps its cells, the kept columns
  stay in their order, and the column \<open>Time\<close> is kept.
\<close>

theorem filter_removes_excluded_columns:
  assumes "A \<noteq> []" "square A" "wf_table df"
  shows "filter_connected_columns A df =
           (None, \<lparr>columns = filter (\<lambda>c. \<not> encodes_excluded_pair A c) (columns df),
                  rows = map (\<lambda>r. map snd (filter (\<lambda>p. \<not> encodes_excluded_pair A (fst p))
                                                  (zip (columns df) r)))
                             (rows df)\<rparr>)
       \<and> subseq (columns (snd (filter_connected_columns A df))) (columns df)
       \<and> (''Time'' \<in> set (columns df)
            \<longrightarrow> ''Time'' \<in> set (columns (snd (filter_connected_columns A df))))"
proof -
  have e: "excluded A = encodes_excluded_pair A"
    by (rule ext) (rule excluded_iff_encodes[OF assms(1)])
  have t: "\<not> encodes_excluded_pair A ''Time''"
    using time_not_excluded[of A] by (simp add: e)
  have "filter_connected_columns A df =
           (None, \<lparr>columns = filter (\<lambda>c. \<not> encodes_excluded_pair A c) (columns df),
                  rows = map (\<lambda>r. map snd (filter (\<lambda>p. \<not> encodes_excluded_pair A (fst p))
                                                  (zip (columns df) r)))
                             (rows df)\<rparr>)"
    using filter_connected_columns_eq[OF assms] by (simp only: e)
  then show ?thesis using t by simp
qed

theorem filter_removes_excluded_columns_witness:
  "scenario_matrix \<noteq> [] \<and> square scenario_matrix \<and> wf_table scenario_table
   \<and> ''Time'' \<in> set (columns scenario_table)
   \<and> subseq (columns (snd (filter_connected_columns scenario_matrix scenario_table)))
            (columns scenario_table)
   \<and> ''Time'' \<in> set (columns (snd (filter_connected_columns scenario_matrix scenario_table)))
   \<and> columns (snd (filter_connected_columns scenario_matrix scenario_table))
       = [''Time'', ''00 10'', ''01 10'']"
proof -
  have h1: "scenario_matrix \<noteq> []" by (simp add: scenario_matrix_def)
  have h2: "square scenario_matrix" by code_simp
  have h3: "wf_table scenario_table" by code_simp
  have h4: "''Time'' \<in> set (columns scenario_table)" by (simp add: scenario_table_def)
  have e: "columns (snd (filter_connected_columns scenario_matrix scenario_table))
         = [''Time'', ''00 10'', ''01 10'']" by code_simp
  from filter_removes_excluded_columns[OF h1 h2 h3] h1 h2 h3 h4 e show ?thesis by blast
qed



subsection \<open>Summary rows\<close>




text \<open>
  C3. With \<open>Time\<close> not in first place the two labels are not written into the \<open>Time\<close>
  cells: the list \<open>['P-max'] + p_max.tolist()\<close> is assigned by position, so the label
  goes under the first column, whatever it is, and the \<open>Time\<close> cell of each new row takes a
  value computed for the column before it.
\<close>

theorem sentinel_not_in_time_cell:
  "add_max_and_avg
     \<lparr>columns = [''A'', ''Time'', ''B''], rows = [[Num (1/2), Num 0, Num (1/4)]]\<rparr>
   = (None, \<lparr>columns = [''A'', ''Time'', ''B''],
             rows = [[Num (1/2), Num 0, Num (1/4)],
                     [Str ''P-max'', Num (1/2), Num (1/4)],
                     [Str ''P-avg'', Num (1/2), Num (1/4)]]\<rparr>)"
  by code_simp

text \<open>
  C6. If no column is labelled \<open>Time\<close>, \<open>add_max_and_avg\<close> raises: \<open>df.drop('Time', axis=1)\<close>
  fails with \<open>KeyError\<close>.
\<close>

theorem add_without_time_raises:
  "''Time'' \<notin> set (columns df) \<Longrightarrow> fst (add_max_and_avg df) = Some KeyError"
  by (simp add: add_no_time)

theorem add_without_time_raises_witness:
  "''Time'' \<notin> set (columns \<lparr>columns = [''A'', ''B''], rows = [[Num 1, Num 2]]\<rparr>)
   \<and> fst (add_max_and_avg \<lparr>columns = [''A'', ''B''], rows = [[Num 1, Num 2]]\<rparr>) = Some KeyError"
proof -
  have h: "''Time'' \<notin> set (columns \<lparr>columns = [''A'', ''B''], rows = [[Num 1, Num 2]]\<rparr>)"
    by simp
  from add_without_time_raises[OF h] h show ?thesis by blast
qed

text \<open>
  C10. If no column is labelled \<open>Time\<close>, the table that the instance holds after the failed
  call has the columns and rows it had before: the only assignment made before the exception
  is \<open>self.df = self.df.copy()\<close>.
\<close>

theorem add_without_time_keeps_table:
  "''Time'' \<notin> set (columns df) \<Longrightarrow>
   fst (add_max_and_avg df) \<noteq> None \<and> snd (add_max_and_avg df) = df"
  by (simp add: add_no_time)

theorem add_without_time_keeps_table_witness:
  "''Time'' \<notin> set (columns \<lparr>columns = [''00 01''], rows = [[Num (1/3)], [Num 1]]\<rparr>)
   \<and> fst (add_max_and_avg \<lparr>columns = [''00 01''], rows = [[Num (1/3)], [Num 1]]\<rparr>) \<noteq> None
   \<and> snd (add_max_and_avg \<lparr>columns = [''00 01''], rows = [[Num (1/3)], [Num 1]]\<rparr>)
       = \<lparr>columns = [''00 01''], rows = [[Num (1/3)], [Num 1]]\<rparr>"
proof -
  have h: "''Time'' \<notin> set (columns \<lparr>columns = [''00 01''], rows = [[Num (1/3)], [Num 1]]\<rparr>)"
    by simp
  from add_without_time_keeps_table[OF h] h show ?thesis by blast
qed

subsection \<open>Filtering and summary rows together\<close>




subsection \<open>Relabelling\<close>






text \<open>
  C8. Relabelling twice gives what relabelling once gives: a label that was renamed holds no
  whitespace any more, so it is a single token and is kept, and a label that was kept is
  kept again.
\<close>

theorem relabel_idempotent:
  "convert_to_decimal (snd (convert_to_decimal df)) = convert_to_decimal df"
proof -
  have "map convert_label (map convert_label (columns df)) = map convert_label (columns df)"
    by (simp add: convert_label_idem)
  then have "columns (snd (convert_to_decimal (snd (convert_to_decimal df))))
           = columns (snd (convert_to_decimal df))"
    by (simp only: convert_columns)
  then show ?thesis by (simp add: convert_to_decimal_def df_rename_def)
qed

theorem relabel_idempotent_witness:
  "convert_to_decimal (snd (convert_to_decimal scenario_table)) = convert_to_decimal scenario_table
   \<and> columns (snd (convert_to_decimal scenario_table))
       = [''Time'', ''0-1'', ''0-2'', ''1-2'', ''2-3'']"
proof -
  have "columns (snd (convert_to_decimal scenario_table))
       = [''Time'', ''0-1'', ''0-2'', ''1-2'', ''2-3'']" by code_simp
  with relabel_idempotent[of scenario_table] show ?thesis by blast
qed

end
